theory Spec2Isabelle
  imports Main "HOL-Library.Sublist"
begin

section \<open>Data model (src/main.go, lines 18-37)\<close>

text \<open>
  \<open>time.Time\<close> is kept as an integer count of nanoseconds since 0001-01-01T00:00:00Z,
  the instant that the zero value of \<open>time.Time\<close> denotes.
\<close>

type_synonym gotime = int

definition zero_time :: gotime where
  "zero_time = 0"

text \<open>The struct \<open>Message\<close>, field by field.\<close>

record Message =
  Sender :: string
  Receiver :: string
  Content :: string
  Time :: gotime

text \<open>\<open>var message Message\<close>: every field at its zero value.\<close>

definition zero_Message :: Message where
  "zero_Message = \<lparr>Sender = [], Receiver = [], Content = [], Time = zero_time\<rparr>"

text \<open>A \<open>*websocket.Conn\<close> is a handle; handles are told apart by a number.\<close>

type_synonym conn = nat

text \<open>
  The collaborators that the program calls but does not define. \<open>marshal_ok m\<close>: whether
  \<open>json.Marshal\<close> returns no error on \<open>m\<close>. \<open>write_ok n\<close>: whether the call of
  \<open>conn.Write\<close> that comes after \<open>n\<close> earlier calls returns no error. \<open>save_ok n\<close>: the same
  for \<open>InsertOne\<close>. \<open>parse_time\<close>: the RFC 3339 parser behind \<open>Time.UnmarshalJSON\<close>.
\<close>

record env =
  marshal_ok :: "Message \<Rightarrow> bool"
  write_ok :: "nat \<Rightarrow> bool"
  save_ok :: "nat \<Rightarrow> bool"
  parse_time :: "string \<Rightarrow> gotime option"

text \<open>
  The package-level variables \<open>connections\<close>, \<open>messageQueues\<close> and \<open>requestsTotal\<close>
  (a counter per request method; the status label is always "200"), and the two
  things the program does to the outside: \<open>wlog\<close> lists the calls of \<open>conn.Write\<close> in
  order (handle, message whose JSON text is the frame, whether the call succeeded);
  \<open>slog\<close> lists the calls of \<open>InsertOne\<close> with their outcome.
\<close>

record state =
  connections :: "string \<rightharpoonup> conn"
  messageQueues :: "string \<rightharpoonup> Message list"
  requestsTotal :: "string \<Rightarrow> nat"
  wlog :: "(conn \<times> Message \<times> bool) list"
  slog :: "(Message \<times> bool) list"

text \<open>\<open>main\<close>: both maps are made empty before the server starts.\<close>

definition init_state :: state where
  "init_state = \<lparr>connections = Map.empty, messageQueues = Map.empty,
     requestsTotal = (\<lambda>_. 0), wlog = [], slog = []\<rparr>"

text \<open>
  Reading \<open>messageQueues[u]\<close>: a missing key reads as the nil slice, and the nil slice
  is the empty sequence.
\<close>

definition queue_of :: "state \<Rightarrow> string \<Rightarrow> Message list" where
  "queue_of s u = (case messageQueues s u of None \<Rightarrow> [] | Some q \<Rightarrow> q)"

section \<open>sendMessage (lines 133-158)\<close>

definition sendMessage :: "env \<Rightarrow> Message \<Rightarrow> state \<Rightarrow> state" where
  "sendMessage E message s =
     (case connections s (Receiver message) of
        None \<Rightarrow>
          s\<lparr>messageQueues := (messageQueues s)
               (Receiver message \<mapsto> queue_of s (Receiver message) @ [message])\<rparr>
      | Some c \<Rightarrow>
          if \<not> marshal_ok E message then s
          else s\<lparr>wlog := wlog s @ [(c, message, write_ok E (length (wlog s)))]\<rparr>)"

text \<open>What a call did, read off the states before and after it.\<close>

definition new_writes :: "state \<Rightarrow> state \<Rightarrow> (conn \<times> Message \<times> bool) list" where
  "new_writes s s' = drop (length (wlog s)) (wlog s')"

definition immediate_write :: "Message \<Rightarrow> state \<Rightarrow> state \<Rightarrow> bool" where
  "immediate_write m s s' = list_ex (\<lambda>(c, m', ok). m' = m \<and> ok) (new_writes s s')"

definition queue_append :: "Message \<Rightarrow> state \<Rightarrow> state \<Rightarrow> bool" where
  "queue_append m s s' =
     (queue_of s' (Receiver m) = queue_of s (Receiver m) @ [m])"

text \<open>The frames that reached a handle: the successful writes on it, in order.\<close>

definition delivered :: "state \<Rightarrow> conn \<Rightarrow> Message list" where
  "delivered s c = map (\<lambda>(c', m, ok). m) (filter (\<lambda>(c', m, ok). c' = c \<and> ok) (wlog s))"

section \<open>saveMessage (lines 160-172)\<close>

definition saveMessage :: "env \<Rightarrow> Message \<Rightarrow> state \<Rightarrow> state" where
  "saveMessage E message s = s\<lparr>slog := slog s @ [(message, save_ok E (length (slog s)))]\<rparr>"

definition stored :: "state \<Rightarrow> Message list" where
  "stored s = map fst (filter snd (slog s))"

section \<open>Decoding an inbound frame (line 111)\<close>

text \<open>
  \<open>json.Unmarshal\<close> belongs to the Go library. A frame is taken as the library's scanner
  leaves it: \<open>None\<close> when the bytes are not a JSON text, otherwise the JSON value, with
  the members of an object in the order of the text (a key may occur twice).
\<close>

datatype json =
    JNull
  | JBool bool
  | JNumber string
  | JString string
  | JArray "json list"
  | JObject "(string \<times> json) list"

type_synonym frame = "json option"

text \<open>
  A key selects the struct field whose JSON name it equals after folding. The fold maps
  the ASCII letters to upper case, and the two non-ASCII letters that fold to ASCII ones:
  U+017F (bytes C5 BF) to S and U+212A (bytes E2 84 AA) to K. Other bytes are kept: they
  never fold to an ASCII letter, and the four names are ASCII.
\<close>

definition ascii_upper :: "char \<Rightarrow> char" where
  "ascii_upper c =
     (case map_of (zip ''abcdefghijklmnopqrstuvwxyz'' ''ABCDEFGHIJKLMNOPQRSTUVWXYZ'') c of
        None \<Rightarrow> c | Some d \<Rightarrow> d)"

fun foldName :: "string \<Rightarrow> string" where
  "foldName [] = []"
| "foldName (c # cs) =
     (if c = CHR 0xC5 \<and> take 1 cs = [CHR 0xBF] then CHR ''S'' # foldName (drop 1 cs)
      else if c = CHR 0xE2 \<and> take 2 cs = [CHR 0x84, CHR 0xAA]
        then CHR ''K'' # foldName (drop 2 cs)
      else ascii_upper c # foldName cs)"

datatype field = FSender | FReceiver | FContent | FTime

definition field_of_key :: "string \<Rightarrow> field option" where
  "field_of_key k =
     (let f = foldName k in
      if f = ''SENDER'' then Some FSender
      else if f = ''RECEIVER'' then Some FReceiver
      else if f = ''CONTENT'' then Some FContent
      else if f = ''TIME'' then Some FTime
      else None)"

datatype decode_error = SyntaxError | UnmarshalTypeError | TimeError

text \<open>
  Storing one member's value into its field. \<open>null\<close> has no effect on a string or on a
  \<open>time.Time\<close>. A string field takes a JSON string and nothing else. The time field goes
  through \<open>Time.UnmarshalJSON\<close>, which wants a JSON string in RFC 3339 form.
\<close>

fun store_value :: "env \<Rightarrow> field \<Rightarrow> json \<Rightarrow> Message \<Rightarrow> decode_error + Message" where
  "store_value E f JNull m = Inr m"
| "store_value E FTime (JString x) m =
     (case parse_time E x of None \<Rightarrow> Inl TimeError | Some t \<Rightarrow> Inr (m\<lparr>Time := t\<rparr>))"
| "store_value E FTime v m = Inl TimeError"
| "store_value E FSender (JString x) m = Inr (m\<lparr>Sender := x\<rparr>)"
| "store_value E FReceiver (JString x) m = Inr (m\<lparr>Receiver := x\<rparr>)"
| "store_value E FContent (JString x) m = Inr (m\<lparr>Content := x\<rparr>)"
| "store_value E f v m = Inl UnmarshalTypeError"

text \<open>
  The members of an object, in order. A key that selects no field is skipped. A type
  mismatch on a string field is remembered (the first one only) and decoding goes on; an
  error of \<open>Time.UnmarshalJSON\<close> is returned at once.
\<close>

fun object :: "env \<Rightarrow> (string \<times> json) list \<Rightarrow> Message \<times> decode_error option \<Rightarrow>
    decode_error + Message \<times> decode_error option" where
  "object E [] acc = Inr acc"
| "object E ((k, v) # kvs) (m, saved) =
     (case field_of_key k of
        None \<Rightarrow> object E kvs (m, saved)
      | Some f \<Rightarrow>
          (case store_value E f v m of
             Inr m' \<Rightarrow> object E kvs (m', saved)
           | Inl TimeError \<Rightarrow> Inl TimeError
           | Inl e \<Rightarrow> object E kvs (m, if saved = None then Some e else saved)))"

text \<open>
  \<open>json.Unmarshal(msg, &message)\<close> on the zero message: invalid JSON is a syntax error,
  \<open>null\<close> leaves the struct untouched, an object is decoded member by member, and any
  other value does not fit a struct.
\<close>

definition unmarshal :: "env \<Rightarrow> frame \<Rightarrow> decode_error + Message" where
  "unmarshal E f =
     (case f of
        None \<Rightarrow> Inl SyntaxError
      | Some JNull \<Rightarrow> Inr zero_Message
      | Some (JObject kvs) \<Rightarrow>
          (case object E kvs (zero_Message, None) of
             Inl e \<Rightarrow> Inl e
           | Inr (m, None) \<Rightarrow> Inr m
           | Inr (m, Some e) \<Rightarrow> Inl e)
      | Some v \<Rightarrow> Inl UnmarshalTypeError)"

section \<open>handleWebSocket (lines 68-131)\<close>

datatype phase = Active | Closing

text \<open>
  Lines 92-98: bind the handle, call sendMessage on every message of the user's queue
  (the slice is read once, when the loop starts), then set the queue to nil.
\<close>

definition connect :: "env \<Rightarrow> string \<Rightarrow> conn \<Rightarrow> state \<Rightarrow> state" where
  "connect E userID c s =
     (let s1 = s\<lparr>connections := (connections s)(userID \<mapsto> c)\<rparr>;
          s2 = fold (sendMessage E) (queue_of s1 userID) s1
      in s2\<lparr>messageQueues := (messageQueues s2)(userID \<mapsto> [])\<rparr>)"

text \<open>
  Lines 69-98. \<open>accepted\<close> is the handle that \<open>websocket.Accept\<close> returns, \<open>None\<close> when it
  returns an error; \<open>user_id\<close> is the query parameter, \<open>None\<close> when the request has none
  (\<open>Get\<close> then returns the empty string).
\<close>

definition open_session ::
    "env \<Rightarrow> string \<Rightarrow> conn option \<Rightarrow> string option \<Rightarrow> state \<Rightarrow> phase \<times> state" where
  "open_session E method accepted user_id s =
     (let s0 = s\<lparr>requestsTotal := (requestsTotal s)(method := Suc (requestsTotal s method))\<rparr>
      in case accepted of
           None \<Rightarrow> (Closing, s0)
         | Some c \<Rightarrow>
             (let userID = (case user_id of None \<Rightarrow> [] | Some u \<Rightarrow> u)
              in if userID = [] then (Closing, s0)
                 else (Active, connect E userID c s0)))"

text \<open>Lines 109-124: one frame that \<open>conn.Read\<close> returned.\<close>

definition on_frame :: "env \<Rightarrow> frame \<Rightarrow> state \<Rightarrow> state" where
  "on_frame E f s =
     (case unmarshal E f of
        Inl e \<Rightarrow> s
      | Inr message \<Rightarrow> sendMessage E message (saveMessage E message s))"

text \<open>Line 128, after the loop.\<close>

definition on_close :: "string \<Rightarrow> state \<Rightarrow> state" where
  "on_close userID s = s\<lparr>connections := (connections s)(userID := None)\<rparr>"

text \<open>
  The read loop on the results of \<open>conn.Read\<close>, in order. When they are used up the
  session is still in the loop, blocked in \<open>conn.Read\<close>.
\<close>

datatype read_result = Frame frame | ReadError

fun read_loop :: "env \<Rightarrow> string \<Rightarrow> read_result list \<Rightarrow> state \<Rightarrow> phase \<times> state" where
  "read_loop E userID [] s = (Active, s)"
| "read_loop E userID (ReadError # rs) s = (Closing, on_close userID s)"
| "read_loop E userID (Frame f # rs) s = read_loop E userID rs (on_frame E f s)"

definition handleWebSocket ::
    "env \<Rightarrow> string \<Rightarrow> conn option \<Rightarrow> string option \<Rightarrow> read_result list \<Rightarrow> state
      \<Rightarrow> phase \<times> state" where
  "handleWebSocket E method accepted user_id reads s =
     (case open_session E method accepted user_id s of
        (Closing, s') \<Rightarrow> (Closing, s')
      | (Active, s') \<Rightarrow>
          read_loop E (case user_id of None \<Rightarrow> [] | Some u \<Rightarrow> u) reads s')"

text \<open>
  Several sessions: the server as a sequence of the steps above, each taken whole, in any
  order. \<open>Close u\<close> is the end of the loop of a session of user \<open>u\<close>.
\<close>

datatype event =
    Open string "conn option" "string option"
  | Inbound frame
  | Close string

fun step :: "env \<Rightarrow> event \<Rightarrow> state \<Rightarrow> state" where
  "step E (Open method accepted user_id) s = snd (open_session E method accepted user_id s)"
| "step E (Inbound f) s = on_frame E f s"
| "step E (Close u) s = on_close u s"

definition run :: "env \<Rightarrow> event list \<Rightarrow> state \<Rightarrow> state" where
  "run E evs s = fold (step E) evs s"

text \<open>Every queued message is addressed to the owner of its queue.\<close>

definition queues_wf :: "state \<Rightarrow> bool" where
  "queues_wf s = (\<forall>u. \<forall>m \<in> set (queue_of s u). Receiver m = u)"

section \<open>Notions used to state the properties\<close>

text \<open>
  The write calls that a flush of queue \<open>q\<close> on handle \<open>c\<close> makes when \<open>n\<close> write calls
  came before it: one per message, in order, each with the outcome the transport gives.
\<close>

fun attempts :: "env \<Rightarrow> conn \<Rightarrow> nat \<Rightarrow> Message list \<Rightarrow> (conn \<times> Message \<times> bool) list" where
  "attempts E c n [] = []"
| "attempts E c n (m # ms) = (c, m, write_ok E n) # attempts E c (Suc n) ms"

text \<open>The messages of the write calls that succeeded, in order.\<close>

definition succeeded :: "(conn \<times> Message \<times> bool) list \<Rightarrow> Message list" where
  "succeeded ws = map (\<lambda>(c, m, ok). m) (filter (\<lambda>(c, m, ok). ok) ws)"

text \<open>The messages addressed to \<open>u\<close> that the server decodes during a run, in order of arrival.\<close>

fun arrivals :: "env \<Rightarrow> string \<Rightarrow> event list \<Rightarrow> Message list" where
  "arrivals E u [] = []"
| "arrivals E u (Inbound f # evs) =
     (case unmarshal E f of
        Inl e \<Rightarrow> arrivals E u evs
      | Inr m \<Rightarrow> if Receiver m = u then m # arrivals E u evs else arrivals E u evs)"
| "arrivals E u (ev # evs) = arrivals E u evs"

text \<open>Whether an event is an accepted connection that names user \<open>u\<close>.\<close>

fun opens :: "string \<Rightarrow> event \<Rightarrow> bool" where
  "opens u (Open method (Some c) (Some v)) = (v = u)"
| "opens u ev = False"

text \<open>
  Whether the payload supplies a field: the frame is an object with a member for the field
  whose value is not \<open>null\<close>.
\<close>

definition supplies :: "field \<Rightarrow> frame \<Rightarrow> bool" where
  "supplies fd f =
     (case f of
        Some (JObject kvs) \<Rightarrow> list_ex (\<lambda>(k, v). field_of_key k = Some fd \<and> v \<noteq> JNull) kvs
      | _ \<Rightarrow> False)"

text \<open>Whether a field of a message holds the zero value of its type.\<close>

definition field_is_zero :: "field \<Rightarrow> Message \<Rightarrow> bool" where
  "field_is_zero fd m =
     (case fd of
        FSender \<Rightarrow> Sender m = []
      | FReceiver \<Rightarrow> Receiver m = []
      | FContent \<Rightarrow> Content m = []
      | FTime \<Rightarrow> Time m = zero_time)"

text \<open>Whether a member is one of the four fields, and whether a member's value fits its field.\<close>

definition known :: "string \<times> json \<Rightarrow> bool" where
  "known kv = (field_of_key (fst kv) \<noteq> None)"

definition fits :: "env \<Rightarrow> string \<times> json \<Rightarrow> bool" where
  "fits E kv =
     (case field_of_key (fst kv) of
        None \<Rightarrow> True
      | Some fd \<Rightarrow> \<not> isl (store_value E fd (snd kv) zero_Message))"

text \<open>
  The frames that decode: \<open>null\<close>, and the objects in which every member that names a
  field has a value that fits it.
\<close>

definition decodes :: "env \<Rightarrow> frame \<Rightarrow> bool" where
  "decodes E f =
     (case f of
        Some JNull \<Rightarrow> True
      | Some (JObject kvs) \<Rightarrow> list_all (fits E) kvs
      | _ \<Rightarrow> False)"

text \<open>
  The empty user id has no binding, and no write call so far carried a message addressed
  to the empty user id.
\<close>

definition never_to_empty :: "state \<Rightarrow> bool" where
  "never_to_empty s =
     (connections s [] = None \<and> list_all (\<lambda>(c, m, ok). Receiver m \<noteq> []) (wlog s))"

section \<open>Concrete inputs\<close>

definition msg :: "string \<Rightarrow> string \<Rightarrow> string \<Rightarrow> Message" where
  "msg a b c = \<lparr>Sender = a, Receiver = b, Content = c, Time = zero_time\<rparr>"

text \<open>An environment in which only the write call number 1 fails (calls count from 0).\<close>

definition env_fail1 :: env where
  "env_fail1 = \<lparr>marshal_ok = (\<lambda>_. True), write_ok = (\<lambda>n. n \<noteq> 1), save_ok = (\<lambda>_. True),
     parse_time = (\<lambda>_. None)\<rparr>"

text \<open>An environment in which the write call number 0 fails.\<close>

definition env_fail0 :: env where
  "env_fail0 = \<lparr>marshal_ok = (\<lambda>_. True), write_ok = (\<lambda>n. n \<noteq> 0), save_ok = (\<lambda>_. True),
     parse_time = (\<lambda>_. None)\<rparr>"

text \<open>alice is bound to handle 7; nothing is queued.\<close>

definition alice_online :: state where
  "alice_online = init_state\<lparr>connections := [''alice'' \<mapsto> 7]\<rparr>"

text \<open>An environment in which nothing fails.\<close>

definition env_ok :: env where
  "env_ok = \<lparr>marshal_ok = (\<lambda>_. True), write_ok = (\<lambda>_. True), save_ok = (\<lambda>_. True),
     parse_time = (\<lambda>_. None)\<rparr>"

definition first_msg :: Message where
  "first_msg = msg ''bob'' ''alice'' ''first''"

definition second_msg :: Message where
  "second_msg = msg ''bob'' ''alice'' ''second''"

definition third_msg :: Message where
  "third_msg = msg ''bob'' ''alice'' ''third''"

text \<open>alice is offline and three messages wait for her.\<close>

definition alice_queued :: state where
  "alice_queued =
     init_state\<lparr>messageQueues := [''alice'' \<mapsto> [first_msg, second_msg, third_msg]]\<rparr>"

text \<open>The frame \<open>{"sender": a, "receiver": b, "content": c}\<close>.\<close>

definition frame_of :: "string \<Rightarrow> string \<Rightarrow> string \<Rightarrow> frame" where
  "frame_of a b c =
     Some (JObject [(''sender'', JString a), (''receiver'', JString b), (''content'', JString c)])"

text \<open>bob connects and sends two messages to alice, and one to carol in between.\<close>

definition offline_run :: "event list" where
  "offline_run =
     [Open ''GET'' (Some 3) (Some ''bob''),
      Inbound (frame_of ''bob'' ''alice'' ''first''),
      Inbound (frame_of ''bob'' ''carol'' ''other''),
      Inbound (frame_of ''bob'' ''alice'' ''second'')]"

text \<open>alice connected on handle 7 with three messages queued, and the session ended.\<close>

definition alice_back :: state where
  "alice_back =
     on_close ''alice'' (snd (open_session env_ok ''GET'' (Some 7) (Some ''alice'') alice_queued))"

text \<open>An environment whose time parser knows one timestamp, one second after the zero instant.\<close>

definition env_clock :: env where
  "env_clock = \<lparr>marshal_ok = (\<lambda>_. True), write_ok = (\<lambda>_. True), save_ok = (\<lambda>_. True),
     parse_time = (\<lambda>x. if x = ''0001-01-01T00:00:01Z'' then Some 1000000000 else None)\<rparr>"

text \<open>The message that carries that timestamp.\<close>

definition stamped_msg :: Message where
  "stamped_msg = \<lparr>Sender = ''bob'', Receiver = ''alice'', Content = ''hi'', Time = 1000000000\<rparr>"

text \<open>A frame with the four fields and one member more.\<close>

definition frame_extra :: frame where
  "frame_extra =
     Some (JObject [(''sender'', JString ''bob''), (''receiver'', JString ''alice''),
       (''content'', JString ''hi''), (''time'', JString ''0001-01-01T00:00:01Z''),
       (''mood'', JBool True)])"

text \<open>The frame \<open>{}\<close>: every field is missing.\<close>

definition frame_empty :: frame where
  "frame_empty = Some (JObject [])"

text \<open>Attempts to connect without a user id, a failed accept, and a session of alice.\<close>

definition after_null :: "event list" where
  "after_null =
     [Open ''GET'' (Some 5) (Some []),
      Open ''GET'' (Some 6) None,
      Open ''GET'' (Some 7) (Some ''alice''),
      Close ''alice'']"

section \<open>Properties of sendMessage\<close>

lemma sendMessage_connections [simp]:
  "connections (sendMessage E m s) = connections s"
  by (simp add: sendMessage_def split: option.split)

lemma sendMessage_slog [simp]: "slog (sendMessage E m s) = slog s"
  by (simp add: sendMessage_def split: option.split)

lemma sendMessage_requestsTotal [simp]:
  "requestsTotal (sendMessage E m s) = requestsTotal s"
  by (simp add: sendMessage_def split: option.split)

lemma sendMessage_bound:
  "connections s (Receiver m) = Some c \<Longrightarrow>
   sendMessage E m s =
     (if marshal_ok E m then s\<lparr>wlog := wlog s @ [(c, m, write_ok E (length (wlog s)))]\<rparr>
      else s)"
  by (simp add: sendMessage_def)

text \<open>
  C1 (as the claim states it, refuted). alice is bound to handle 7 and the write on it
  fails. The claim wants the message appended to alice's queue and the binding removed;
  the code leaves the queue empty and the binding in place, and the message is neither
  written nor queued.
\<close>

theorem C1_write_failure_counterexample:
  "\<not> (queue_append (msg ''bob'' ''alice'' ''hi'') alice_online
        (sendMessage env_fail0 (msg ''bob'' ''alice'' ''hi'') alice_online)
      \<and> connections (sendMessage env_fail0 (msg ''bob'' ''alice'' ''hi'') alice_online) ''alice''
          = None)
   \<and> \<not> immediate_write (msg ''bob'' ''alice'' ''hi'') alice_online
        (sendMessage env_fail0 (msg ''bob'' ''alice'' ''hi'') alice_online)
   \<and> \<not> queue_append (msg ''bob'' ''alice'' ''hi'') alice_online
        (sendMessage env_fail0 (msg ''bob'' ''alice'' ''hi'') alice_online)"
  by (simp add: sendMessage_def alice_online_def init_state_def env_fail0_def msg_def
      queue_append_def immediate_write_def new_writes_def queue_of_def)

text \<open>
  C1 (amended). A call of sendMessage never both writes and appends. It appends the
  message to the receiver's queue exactly when the receiver has no binding; it writes the
  message exactly when the receiver is bound, the encoding succeeds and the transport
  write succeeds; when the receiver is bound and the encoding or the write fails it does
  neither. The Registry is never changed, and with a bound receiver the queues are not
  changed either.
\<close>

theorem C1_sendMessage_effect:
  "queue_append m s (sendMessage E m s) = (connections s (Receiver m) = None)
   \<and> immediate_write m s (sendMessage E m s)
       = (connections s (Receiver m) \<noteq> None \<and> marshal_ok E m \<and> write_ok E (length (wlog s)))
   \<and> \<not> (immediate_write m s (sendMessage E m s) \<and> queue_append m s (sendMessage E m s))
   \<and> connections (sendMessage E m s) = connections s
   \<and> (connections s (Receiver m) \<noteq> None \<longrightarrow>
        messageQueues (sendMessage E m s) = messageQueues s)"
  by (cases "connections s (Receiver m)")
     (simp_all add: sendMessage_def queue_append_def immediate_write_def new_writes_def
        queue_of_def)

theorem C1_sendMessage_effect_witness:
  "connections alice_online (Receiver (msg ''bob'' ''alice'' ''hi'')) \<noteq> None
   \<and> \<not> write_ok env_fail0 (length (wlog alice_online))
   \<and> \<not> immediate_write (msg ''bob'' ''alice'' ''hi'') alice_online
        (sendMessage env_fail0 (msg ''bob'' ''alice'' ''hi'') alice_online)
   \<and> \<not> queue_append (msg ''bob'' ''alice'' ''hi'') alice_online
        (sendMessage env_fail0 (msg ''bob'' ''alice'' ''hi'') alice_online)
   \<and> messageQueues (sendMessage env_fail0 (msg ''bob'' ''alice'' ''hi'') alice_online)
       = messageQueues alice_online"
  using C1_sendMessage_effect [of "msg ''bob'' ''alice'' ''hi''" alice_online env_fail0]
  by (simp add: alice_online_def init_state_def env_fail0_def msg_def)

section \<open>The flush on connect\<close>


lemma fold_sendMessage_connections [simp]:
  "connections (fold (sendMessage E) q s) = connections s"
  by (induction q arbitrary: s) simp_all

lemma fold_sendMessage_slog [simp]:
  "slog (fold (sendMessage E) q s) = slog s"
  by (induction q arbitrary: s) simp_all

lemma fold_sendMessage_bound:
  "connections s u = Some c \<Longrightarrow> \<forall>m\<in>set q. Receiver m = u \<and> marshal_ok E m \<Longrightarrow>
   fold (sendMessage E) q s = s\<lparr>wlog := wlog s @ attempts E c (length (wlog s)) q\<rparr>"
proof (induction q arbitrary: s)
  case Nil
  then show ?case by simp
next
  case (Cons m q)
  let ?s' = "s\<lparr>wlog := wlog s @ [(c, m, write_ok E (length (wlog s)))]\<rparr>"
  from Cons.prems have one: "sendMessage E m s = ?s'"
    by (simp add: sendMessage_bound)
  have "fold (sendMessage E) q ?s' = ?s'\<lparr>wlog := wlog ?s' @ attempts E c (length (wlog ?s')) q\<rparr>"
    using Cons.prems by (intro Cons.IH) simp_all
  with one show ?case by simp
qed

lemma connect_flush:
  assumes "\<forall>m\<in>set (queue_of s u). Receiver m = u \<and> marshal_ok E m"
  shows "connect E u c s =
     s\<lparr>connections := (connections s)(u \<mapsto> c),
       wlog := wlog s @ attempts E c (length (wlog s)) (queue_of s u),
       messageQueues := (messageQueues s)(u \<mapsto> [])\<rparr>"
proof -
  let ?s1 = "s\<lparr>connections := (connections s)(u \<mapsto> c)\<rparr>"
  have q: "queue_of ?s1 u = queue_of s u" by (simp add: queue_of_def)
  have "fold (sendMessage E) (queue_of s u) ?s1 =
      ?s1\<lparr>wlog := wlog ?s1 @ attempts E c (length (wlog ?s1)) (queue_of s u)\<rparr>"
    using assms by (intro fold_sendMessage_bound [where u = u]) simp_all
  then show ?thesis by (simp add: connect_def q)
qed

lemma length_attempts [simp]: "length (attempts E c n q) = length q"
  by (induction q arbitrary: n) simp_all

lemma map_attempts [simp]: "map (\<lambda>(c', m, ok). (c', m)) (attempts E c n q) = map (Pair c) q"
  by (induction q arbitrary: n) simp_all

lemma connect_queue_owner [simp]: "queue_of (connect E u c s) u = []"
  by (simp add: connect_def queue_of_def Let_def)

lemma connect_messageQueues_owner [simp]: "messageQueues (connect E u c s) u = Some []"
  by (simp add: connect_def Let_def)

lemmas ex_defs = first_msg_def second_msg_def third_msg_def alice_queued_def
  alice_online_def init_state_def env_fail0_def env_fail1_def msg_def

text \<open>
  C2 (as the claim states it, refuted). alice connects on handle 7 with three messages
  queued, and the second write fails. The claim wants the second and third message back
  in her queue and no write after the failed one; the code calls the third write as well
  and leaves her queue empty, so the second message is in no queue and on no transport.
\<close>

theorem C2_flush_failure_counterexample:
  "\<not> (queue_of (snd (handleWebSocket env_fail1 ''GET'' (Some 7) (Some ''alice'') [] alice_queued))
         ''alice'' = [second_msg, third_msg])
   \<and> \<not> (length (new_writes alice_queued
           (snd (handleWebSocket env_fail1 ''GET'' (Some 7) (Some ''alice'') [] alice_queued))) = 2)
   \<and> new_writes alice_queued
        (snd (handleWebSocket env_fail1 ''GET'' (Some 7) (Some ''alice'') [] alice_queued))
       = [(7, first_msg, True), (7, second_msg, False), (7, third_msg, True)]
   \<and> queue_of (snd (handleWebSocket env_fail1 ''GET'' (Some 7) (Some ''alice'') [] alice_queued))
        ''alice'' = []"
  by (simp add: handleWebSocket_def open_session_def connect_def sendMessage_def queue_of_def Let_def
      new_writes_def ex_defs)

text \<open>
  C2 (amended). During flush-on-connect a failed write neither stops the flush nor puts
  anything back: sendMessage is called on every queued message in queue order, each call
  makes one write on the new handle whatever the earlier outcomes were, and afterwards
  the user's queue is empty and every other queue is as before. (Stated for a queue whose
  messages are addressed to its owner, which holds in every state the server reaches,
  and which json.Marshal accepts.)
\<close>

theorem C2_flush_no_abort:
  assumes "\<forall>m\<in>set (queue_of s u). Receiver m = u \<and> marshal_ok E m"
  shows "new_writes s (connect E u c s) = attempts E c (length (wlog s)) (queue_of s u)
    \<and> length (new_writes s (connect E u c s)) = length (queue_of s u)
    \<and> messageQueues (connect E u c s) = (messageQueues s)(u \<mapsto> [])"
  by (simp add: connect_flush [OF assms] new_writes_def)

theorem C2_flush_no_abort_witness:
  "list_all (\<lambda>m. Receiver m = ''alice'' \<and> marshal_ok env_fail1 m)
     (queue_of alice_queued ''alice'')
   \<and> new_writes alice_queued (connect env_fail1 ''alice'' 7 alice_queued)
       = [(7, first_msg, True), (7, second_msg, False), (7, third_msg, True)]
   \<and> messageQueues (connect env_fail1 ''alice'' 7 alice_queued) ''alice'' = Some []"
proof -
  have h: "\<forall>m\<in>set (queue_of alice_queued ''alice''). Receiver m = ''alice'' \<and> marshal_ok env_fail1 m"
    by (simp add: queue_of_def ex_defs)
  have q: "queue_of alice_queued ''alice'' = [first_msg, second_msg, third_msg]"
    by (simp add: queue_of_def ex_defs)
  have w: "wlog alice_queued = []" by (simp add: ex_defs)
  show ?thesis
    using h C2_flush_no_abort [OF h, of 7]
    by (simp add: q w list_all_iff) (simp add: env_fail1_def)
qed

section \<open>Invariants of a run\<close>


lemma queue_of_simps [simp]:
  "queue_of (s\<lparr>connections := cs\<rparr>) = queue_of s"
  "queue_of (s\<lparr>wlog := w\<rparr>) = queue_of s"
  "queue_of (s\<lparr>slog := l\<rparr>) = queue_of s"
  "queue_of (s\<lparr>requestsTotal := r\<rparr>) = queue_of s"
  by (simp_all add: queue_of_def fun_eq_iff)

lemma queue_of_upd [simp]:
  "queue_of (s\<lparr>messageQueues := (messageQueues s)(v \<mapsto> q)\<rparr>) u = (if u = v then q else queue_of s u)"
  by (simp add: queue_of_def)

lemma queues_wf_simps [simp]:
  "queues_wf (s\<lparr>connections := cs\<rparr>) = queues_wf s"
  "queues_wf (s\<lparr>wlog := w\<rparr>) = queues_wf s"
  "queues_wf (s\<lparr>slog := l\<rparr>) = queues_wf s"
  "queues_wf (s\<lparr>requestsTotal := r\<rparr>) = queues_wf s"
  by (simp_all add: queues_wf_def)

lemma sendMessage_queue_of:
  "queue_of (sendMessage E m s) u =
     (if Receiver m = u \<and> connections s u = None then queue_of s u @ [m] else queue_of s u)"
  by (auto simp: sendMessage_def split: option.split)

lemma sendMessage_queues_wf: "queues_wf s \<Longrightarrow> queues_wf (sendMessage E m s)"
  by (simp add: queues_wf_def sendMessage_queue_of)

lemma saveMessage_simps [simp]:
  "connections (saveMessage E m s) = connections s"
  "messageQueues (saveMessage E m s) = messageQueues s"
  "wlog (saveMessage E m s) = wlog s"
  "requestsTotal (saveMessage E m s) = requestsTotal s"
  "queue_of (saveMessage E m s) = queue_of s"
  "queues_wf (saveMessage E m s) = queues_wf s"
  by (simp_all add: saveMessage_def)

lemma sendMessage_bound_queues:
  "connections s (Receiver m) \<noteq> None \<Longrightarrow> messageQueues (sendMessage E m s) = messageQueues s"
  by (auto simp: sendMessage_def)

lemma fold_sendMessage_bound_queues:
  "connections s u \<noteq> None \<Longrightarrow> \<forall>m\<in>set q. Receiver m = u \<Longrightarrow>
   messageQueues (fold (sendMessage E) q s) = messageQueues s"
  by (induction q arbitrary: s) (simp_all add: sendMessage_bound_queues)

lemma connect_connections [simp]:
  "connections (connect E u c s) = (connections s)(u \<mapsto> c)"
  by (simp add: connect_def Let_def)

lemma connect_slog [simp]: "slog (connect E u c s) = slog s"
  by (simp add: connect_def Let_def)

lemma connect_queues:
  assumes "\<forall>m\<in>set (queue_of s u). Receiver m = u"
  shows "messageQueues (connect E u c s) = (messageQueues s)(u \<mapsto> [])"
proof -
  let ?s1 = "s\<lparr>connections := (connections s)(u \<mapsto> c)\<rparr>"
  have "messageQueues (fold (sendMessage E) (queue_of s u) ?s1) = messageQueues ?s1"
    using assms by (intro fold_sendMessage_bound_queues [where u = u]) simp_all
  then show ?thesis by (simp add: connect_def)
qed

lemma connect_queue_of:
  "\<forall>m\<in>set (queue_of s u). Receiver m = u \<Longrightarrow>
   queue_of (connect E u c s) v = (if v = u then [] else queue_of s v)"
  by (simp add: queue_of_def connect_queues)

lemma connect_queues_wf: "queues_wf s \<Longrightarrow> queues_wf (connect E u c s)"
  unfolding queues_wf_def
proof
  fix v assume wf: "\<forall>u. \<forall>m\<in>set (queue_of s u). Receiver m = u"
  then have "\<forall>m\<in>set (queue_of s u). Receiver m = u" by blast
  then have "queue_of (connect E u c s) v = (if v = u then [] else queue_of s v)"
    by (rule connect_queue_of)
  with wf show "\<forall>m\<in>set (queue_of (connect E u c s) v). Receiver m = v" by simp
qed

lemma on_frame_queues_wf: "queues_wf s \<Longrightarrow> queues_wf (on_frame E f s)"
  by (simp add: on_frame_def sendMessage_queues_wf split: sum.split)

lemma on_close_queues_wf: "queues_wf s \<Longrightarrow> queues_wf (on_close u s)"
  by (simp add: on_close_def)

lemma open_session_queues_wf:
  "queues_wf s \<Longrightarrow> queues_wf (snd (open_session E method accepted user_id s))"
  by (simp add: open_session_def Let_def connect_queues_wf split: option.split)

lemma step_queues_wf: "queues_wf s \<Longrightarrow> queues_wf (step E ev s)"
  by (cases ev) (simp_all add: on_frame_queues_wf on_close_queues_wf open_session_queues_wf)

lemma run_queues_wf: "queues_wf s \<Longrightarrow> queues_wf (run E evs s)"
  unfolding run_def by (induction evs arbitrary: s) (simp_all add: step_queues_wf)

lemma init_queues_wf: "queues_wf init_state"
  by (simp add: queues_wf_def queue_of_def init_state_def)

lemma run_Cons [simp]: "run E (ev # evs) s = run E evs (step E ev s)"
  by (simp add: run_def)

lemma run_Nil [simp]: "run E [] s = s"
  by (simp add: run_def)

lemma step_offline:
  assumes "connections s u = None" "\<not> opens u ev"
  shows "connections (step E ev s) u = None"
proof (cases ev)
  case (Open meth acc uid)
  with assms show ?thesis
    by (cases acc; cases uid) (auto simp: open_session_def Let_def)
next
  case (Inbound f)
  with assms show ?thesis by (simp add: on_frame_def split: sum.split)
next
  case (Close v)
  with assms show ?thesis by (simp add: on_close_def)
qed

lemma step_queue_of:
  assumes "queues_wf s" "connections s u = None" "\<not> opens u ev"
  shows "queue_of (step E ev s) u = queue_of s u @ arrivals E u [ev]"
proof (cases ev)
  case (Open meth acc uid)
  have wf: "\<And>v. \<forall>m\<in>set (queue_of s v). Receiver m = v"
    using assms(1) by (simp add: queues_wf_def)
  show ?thesis
  proof (cases "\<exists>c v. acc = Some c \<and> uid = Some v \<and> v \<noteq> []")
    case True
    then obtain c v where cv: "acc = Some c" "uid = Some v" "v \<noteq> []" by blast
    with assms(3) Open have "v \<noteq> u" by simp
    with cv Open wf [of v] show ?thesis
      by (simp add: open_session_def Let_def connect_queue_of)
  next
    case False
    with Open show ?thesis
      by (cases acc; cases uid) (auto simp: open_session_def Let_def)
  qed
next
  case (Inbound f)
  with assms show ?thesis
    by (simp add: on_frame_def sendMessage_queue_of split: sum.split)
next
  case (Close v)
  then show ?thesis by (simp add: on_close_def)
qed

lemma arrivals_Cons: "arrivals E u (ev # evs) = arrivals E u [ev] @ arrivals E u evs"
  by (cases ev) (simp_all split: sum.split)

lemma run_queue_of:
  "queues_wf s \<Longrightarrow> connections s u = None \<Longrightarrow> \<not> list_ex (opens u) evs \<Longrightarrow>
   queue_of (run E evs s) u = queue_of s u @ arrivals E u evs
   \<and> connections (run E evs s) u = None"
proof (induction evs arbitrary: s)
  case Nil
  then show ?case by simp
next
  case (Cons ev evs)
  from Cons.prems have no: "\<not> opens u ev" "\<not> list_ex (opens u) evs" by simp_all
  have "queue_of (run E evs (step E ev s)) u = queue_of (step E ev s) u @ arrivals E u evs
      \<and> connections (run E evs (step E ev s)) u = None"
    using Cons.prems no by (intro Cons.IH step_queues_wf step_offline) simp_all
  then show ?case
    using step_queue_of [OF Cons.prems(1,2) no(1), of E] arrivals_Cons [of E u ev evs]
    by simp
qed

section \<open>Offline delivery\<close>


lemma field_of_key_names [simp]:
  "field_of_key ''sender'' = Some FSender"
  "field_of_key ''receiver'' = Some FReceiver"
  "field_of_key ''content'' = Some FContent"
  "field_of_key ''time'' = Some FTime"
  by (simp_all add: field_of_key_def ascii_upper_def)

lemma unmarshal_frame_of [simp]: "unmarshal E (frame_of a b c) = Inr (msg a b c)"
  by (simp add: unmarshal_def frame_of_def zero_Message_def msg_def)

lemma attempts_all_ok:
  "\<forall>i<length q. write_ok E (n + i) \<Longrightarrow> attempts E c n q = map (\<lambda>m. (c, m, True)) q"
proof (induction q arbitrary: n)
  case Nil
  then show ?case by simp
next
  case (Cons m q)
  from Cons.prems have "write_ok E (n + 0)" by (metis length_greater_0_conv list.distinct(1))
  moreover have "\<forall>i<length q. write_ok E (Suc n + i)"
    using Cons.prems by (metis Suc_less_eq add_Suc_right add_Suc length_Cons)
  ultimately show ?case using Cons.IH [of "Suc n"] by simp
qed

lemma open_session_accept:
  "u \<noteq> [] \<Longrightarrow> open_session E method (Some c) (Some u) s =
     (Active, connect E u c
        (s\<lparr>requestsTotal := (requestsTotal s)(method := Suc (requestsTotal s method))\<rparr>))"
  by (simp add: open_session_def Let_def)

lemma delivered_attempts:
  "delivered (s\<lparr>wlog := wlog s @ attempts E c n q\<rparr>) c
     = delivered s c @ succeeded (attempts E c n q)"
proof -
  have "filter (\<lambda>(c', m, ok). c' = c \<and> ok) (attempts E c n q)
      = filter (\<lambda>(c', m, ok). ok) (attempts E c n q)"
    by (induction q arbitrary: n) simp_all
  then show ?thesis by (simp add: delivered_def succeeded_def)
qed

lemma succeeded_all_ok: "succeeded (map (\<lambda>m. (c, m, True)) q) = q"
  by (simp add: succeeded_def comp_def)

text \<open>
  C3 (as the claim states it, refuted). Three messages wait for alice, who is offline, and
  the second write on her new handle fails. The claim wants every queued message written
  to the new transport before the queue is cleared; the transport receives the first and
  the third only, the queue is cleared all the same, and the second message is gone.
\<close>

theorem C3_failed_write_counterexample:
  "queues_wf alice_queued
   \<and> connections alice_queued ''alice'' = None
   \<and> queue_of alice_queued ''alice'' = [first_msg, second_msg, third_msg]
   \<and> \<not> (delivered (snd (open_session env_fail1 ''GET'' (Some 7) (Some ''alice'') alice_queued)) 7
          = queue_of alice_queued ''alice'')
   \<and> delivered (snd (open_session env_fail1 ''GET'' (Some 7) (Some ''alice'') alice_queued)) 7
       = [first_msg, third_msg]
   \<and> queue_of (snd (open_session env_fail1 ''GET'' (Some 7) (Some ''alice'') alice_queued))
        ''alice'' = []"
proof -
  have wf: "queues_wf alice_queued"
    by (auto simp: queues_wf_def queue_of_def ex_defs split: if_splits)
  have rest: "connections alice_queued ''alice'' = None
   \<and> queue_of alice_queued ''alice'' = [first_msg, second_msg, third_msg]
   \<and> \<not> (delivered (snd (open_session env_fail1 ''GET'' (Some 7) (Some ''alice'') alice_queued)) 7
          = queue_of alice_queued ''alice'')
   \<and> delivered (snd (open_session env_fail1 ''GET'' (Some 7) (Some ''alice'') alice_queued)) 7
       = [first_msg, third_msg]
   \<and> queue_of (snd (open_session env_fail1 ''GET'' (Some 7) (Some ''alice'') alice_queued))
        ''alice'' = []"
    by (simp add: open_session_def connect_def sendMessage_def queue_of_def delivered_def
        Let_def ex_defs)
  from wf rest show ?thesis by (rule conjI)
qed

text \<open>
  C3 (amended). While user \<open>u\<close> has no binding, sendMessage puts a message for \<open>u\<close> at the
  tail of \<open>u\<close>'s queue, creating the entry if there is none, and writes nothing. Over any
  run of the server in which \<open>u\<close> does not connect, \<open>u\<close>'s queue grows by exactly the
  messages for \<open>u\<close> in their order of arrival. When \<open>u\<close> then connects, one write is
  attempted on the new handle for each queued message, in that order, each with the
  outcome the transport gives, and the queue is empty afterwards. The new handle receives
  exactly the messages whose write succeeded, in queue order; a message whose write
  failed is dropped. If every write succeeds, the new handle receives exactly the queue.
\<close>

theorem C3_offline_queue_then_flush:
  assumes wf: "queues_wf s" and off: "connections s u = None" and u: "u \<noteq> []"
    and no: "\<not> list_ex (opens u) evs"
    and enc: "\<forall>m\<in>set (queue_of s u @ arrivals E u evs). marshal_ok E m"
  shows "(\<forall>m. Receiver m = u \<longrightarrow>
            messageQueues (sendMessage E m s) u = Some (queue_of s u @ [m])
            \<and> wlog (sendMessage E m s) = wlog s)
    \<and> queue_of (run E evs s) u = queue_of s u @ arrivals E u evs
    \<and> fst (open_session E method (Some c) (Some u) (run E evs s)) = Active
    \<and> new_writes (run E evs s) (snd (open_session E method (Some c) (Some u) (run E evs s)))
       = attempts E c (length (wlog (run E evs s))) (queue_of s u @ arrivals E u evs)
    \<and> queue_of (snd (open_session E method (Some c) (Some u) (run E evs s))) u = []
    \<and> delivered (snd (open_session E method (Some c) (Some u) (run E evs s))) c
       = delivered (run E evs s) c
         @ succeeded (attempts E c (length (wlog (run E evs s)))
             (queue_of s u @ arrivals E u evs))
    \<and> ((\<forall>i<length (queue_of (run E evs s) u). write_ok E (length (wlog (run E evs s)) + i)) \<longrightarrow>
        delivered (snd (open_session E method (Some c) (Some u) (run E evs s))) c
          = delivered (run E evs s) c @ queue_of s u @ arrivals E u evs)"
proof -
  let ?s1 = "run E evs s"
  let ?r = "?s1\<lparr>requestsTotal := (requestsTotal ?s1)(method := Suc (requestsTotal ?s1 method))\<rparr>"
  let ?q = "queue_of s u @ arrivals E u evs"
  let ?n = "length (wlog ?s1)"
  have one: "\<forall>m. Receiver m = u \<longrightarrow>
            messageQueues (sendMessage E m s) u = Some (queue_of s u @ [m])
            \<and> wlog (sendMessage E m s) = wlog s"
    using off by (simp add: sendMessage_def)
  have q: "queue_of ?s1 u = ?q"
    using run_queue_of [OF wf off no] by simp
  have wf1: "queues_wf ?s1" using wf by (rule run_queues_wf)
  then have own: "\<forall>m\<in>set (queue_of ?s1 u). Receiver m = u" by (simp add: queues_wf_def)
  have pre: "\<forall>m\<in>set (queue_of ?r u). Receiver m = u \<and> marshal_ok E m"
    using own enc q by simp
  have os: "open_session E method (Some c) (Some u) ?s1 = (Active, connect E u c ?r)"
    using u by (rule open_session_accept)
  have cf: "connect E u c ?r =
     ?r\<lparr>connections := (connections ?r)(u \<mapsto> c),
       wlog := wlog ?r @ attempts E c (length (wlog ?r)) (queue_of ?r u),
       messageQueues := (messageQueues ?r)(u \<mapsto> [])\<rparr>"
    using pre by (rule connect_flush)
  have nw: "new_writes ?s1 (connect E u c ?r) = attempts E c ?n ?q"
    by (simp add: cf new_writes_def q)
  have "delivered (?s1\<lparr>wlog := wlog ?s1 @ attempts E c ?n ?q\<rparr>) c
      = delivered ?s1 c @ succeeded (attempts E c ?n ?q)"
    by (rule delivered_attempts)
  then have dl: "delivered (connect E u c ?r) c = delivered ?s1 c @ succeeded (attempts E c ?n ?q)"
    by (simp add: cf q delivered_def)
  have del: "delivered (connect E u c ?r) c = delivered ?s1 c @ ?q"
    if "\<forall>i<length (queue_of ?s1 u). write_ok E (?n + i)"
  proof -
    from that have "\<forall>i<length ?q. write_ok E (?n + i)" by (simp only: q)
    then have "attempts E c ?n ?q = map (\<lambda>m. (c, m, True)) ?q"
      by (rule attempts_all_ok)
    with dl show ?thesis by (simp only: succeeded_all_ok)
  qed
  have b: "queue_of (connect E u c ?r) u = []" by simp
  have act: "fst (Active, connect E u c ?r) = Active" by simp
  from one q act nw b dl del show ?thesis
    unfolding os snd_conv by (intro conjI impI)
qed

lemma arrivals_offline_run:
  "arrivals env_ok ''alice'' offline_run = [first_msg, second_msg]"
  by (simp add: offline_run_def msg_def first_msg_def second_msg_def)

lemma wlog_offline_run: "wlog (run env_ok offline_run init_state) = []"
  by (simp add: offline_run_def open_session_def Let_def connect_def on_frame_def
      sendMessage_def saveMessage_def queue_of_def init_state_def msg_def)

theorem C3_offline_queue_then_flush_witness:
  "queues_wf init_state \<and> connections init_state ''alice'' = None
   \<and> \<not> list_ex (opens ''alice'') offline_run
   \<and> list_all (marshal_ok env_ok) (queue_of init_state ''alice'' @ arrivals env_ok ''alice'' offline_run)
   \<and> queue_of (run env_ok offline_run init_state) ''alice'' = [first_msg, second_msg]
   \<and> new_writes (run env_ok offline_run init_state)
          (snd (open_session env_ok ''GET'' (Some 7) (Some ''alice'')
             (run env_ok offline_run init_state)))
       = [(7, first_msg, True), (7, second_msg, True)]
   \<and> queue_of (snd (open_session env_ok ''GET'' (Some 7) (Some ''alice'')
        (run env_ok offline_run init_state))) ''alice'' = []
   \<and> delivered (snd (open_session env_ok ''GET'' (Some 7) (Some ''alice'')
        (run env_ok offline_run init_state))) 7 = [first_msg, second_msg]"
proof -
  have h1: "queues_wf init_state" by (rule init_queues_wf)
  have h2: "connections init_state ''alice'' = None" by (simp add: init_state_def)
  have h3: "''alice'' \<noteq> []" by simp
  have h4: "\<not> list_ex (opens ''alice'') offline_run" by (simp add: offline_run_def)
  have q0: "queue_of init_state ''alice'' = []" by (simp add: queue_of_def init_state_def)
  have h5: "\<forall>m\<in>set (queue_of init_state ''alice'' @ arrivals env_ok ''alice'' offline_run).
      marshal_ok env_ok m"
    by (simp add: env_ok_def)
  have ok: "\<And>n. write_ok env_ok n" by (simp add: env_ok_def)
  have mk: "\<And>m. marshal_ok env_ok m" by (simp add: env_ok_def)
  have d0: "delivered (run env_ok offline_run init_state) 7 = []"
    by (simp add: delivered_def wlog_offline_run)
  show ?thesis
    using h1 h2 h4 C3_offline_queue_then_flush [OF h1 h2 h3 h4 h5, of "''GET''" 7]
    by (simp add: q0 arrivals_offline_run ok mk d0 wlog_offline_run succeeded_def)
qed

section \<open>The session handler\<close>


lemma connect_empty_queue:
  "queue_of s u = [] \<Longrightarrow> wlog (connect E u c s) = wlog s"
  by (simp add: connect_def queue_of_def Let_def)

text \<open>
  C4. When a user's connection has gone through lines 92-98 the user's queue is empty.
  From any later state in which that queue is still as the connection left it (nothing
  was enqueued for the user in between), the next connection of the same user, on any
  handle, makes no write at all: the flush is empty and nothing is delivered again.
\<close>

theorem C4_reconnect_flushes_nothing:
  assumes "u \<noteq> []"
    and "queue_of s' u = queue_of (snd (open_session E meth (Some c) (Some u) s)) u"
  shows "queue_of (snd (open_session E meth (Some c) (Some u) s)) u = []
    \<and> fst (open_session E' meth' (Some c') (Some u) s') = Active
    \<and> new_writes s' (snd (open_session E' meth' (Some c') (Some u) s')) = []
    \<and> wlog (snd (open_session E' meth' (Some c') (Some u) s')) = wlog s'
    \<and> queue_of (snd (open_session E' meth' (Some c') (Some u) s')) u = []"
proof -
  have e: "queue_of (snd (open_session E meth (Some c) (Some u) s)) u = []"
    using assms(1) by (simp add: open_session_accept)
  with assms(2) have "queue_of s' u = []" by simp
  then have "wlog (connect E' u c'
      (s'\<lparr>requestsTotal := (requestsTotal s')(meth' := Suc (requestsTotal s' meth'))\<rparr>)) = wlog s'"
    using connect_empty_queue [of "s'\<lparr>requestsTotal := (requestsTotal s')(meth' := Suc (requestsTotal s' meth'))\<rparr>" u E' c']
    by simp
  with e assms(1) show ?thesis
    by (simp add: open_session_accept new_writes_def)
qed

lemma alice_back_wlog:
  "wlog alice_back = [(7, first_msg, True), (7, second_msg, True), (7, third_msg, True)]"
  by (simp add: alice_back_def on_close_def open_session_def Let_def connect_def sendMessage_def
      queue_of_def alice_queued_def init_state_def env_ok_def first_msg_def second_msg_def
      third_msg_def msg_def)

theorem C4_reconnect_flushes_nothing_witness:
  "''alice'' \<noteq> []
   \<and> queue_of alice_back ''alice''
       = queue_of (snd (open_session env_ok ''GET'' (Some 7) (Some ''alice'') alice_queued)) ''alice''
   \<and> new_writes alice_back (snd (open_session env_ok ''GET'' (Some 8) (Some ''alice'') alice_back)) = []
   \<and> wlog (snd (open_session env_ok ''GET'' (Some 8) (Some ''alice'') alice_back))
       = [(7, first_msg, True), (7, second_msg, True), (7, third_msg, True)]"
proof -
  have h1: "''alice'' \<noteq> []" by simp
  have h2: "queue_of alice_back ''alice''
       = queue_of (snd (open_session env_ok ''GET'' (Some 7) (Some ''alice'') alice_queued)) ''alice''"
    by (simp add: alice_back_def on_close_def)
  show ?thesis
    using h2 C4_reconnect_flushes_nothing [OF h1 h2, of env_ok "''GET''" 8]
    by (simp add: alice_back_wlog)
qed

text \<open>
  C7. A frame that fails to decode changes nothing: no message is saved, written or
  queued, and the Registry is as before. The read loop goes on with the next read in the
  Active state, so a session behaves as if the frame had not been sent, and the frame
  after it is handled as usual.
\<close>

theorem C7_decode_failure_nonfatal:
  assumes "unmarshal E f = Inl e"
  shows "on_frame E f s = s
    \<and> read_loop E u (Frame f # rs) s = read_loop E u rs s
    \<and> read_loop E u [Frame f] s = (Active, s)
    \<and> read_loop E u [Frame f, Frame g] s = (Active, on_frame E g s)
    \<and> handleWebSocket E meth acc uid (Frame f # rs) s0 = handleWebSocket E meth acc uid rs s0"
proof -
  have "on_frame E f t = t" for t
    using assms by (simp add: on_frame_def)
  then show ?thesis
    by (simp add: handleWebSocket_def split: prod.split phase.split)
qed

theorem C7_decode_failure_nonfatal_witness:
  "unmarshal env_ok None = Inl SyntaxError
   \<and> on_frame env_ok None alice_online = alice_online
   \<and> fst (read_loop env_ok ''bob'' [Frame None] alice_online) = Active
   \<and> wlog (snd (read_loop env_ok ''bob'' [Frame None, Frame (frame_of ''bob'' ''alice'' ''hi'')]
        alice_online)) = [(7, msg ''bob'' ''alice'' ''hi'', True)]
   \<and> stored (snd (read_loop env_ok ''bob'' [Frame None, Frame (frame_of ''bob'' ''alice'' ''hi'')]
        alice_online)) = [msg ''bob'' ''alice'' ''hi'']"
proof -
  have h: "unmarshal env_ok None = Inl SyntaxError" by (simp add: unmarshal_def)
  have g: "on_frame env_ok (frame_of ''bob'' ''alice'' ''hi'') alice_online
      = alice_online\<lparr>slog := [(msg ''bob'' ''alice'' ''hi'', True)],
          wlog := [(7, msg ''bob'' ''alice'' ''hi'', True)]\<rparr>"
    by (simp add: on_frame_def sendMessage_def saveMessage_def alice_online_def init_state_def
        env_ok_def msg_def)
  show ?thesis
    using h C7_decode_failure_nonfatal [OF h, of alice_online "''bob''" "[]" "frame_of ''bob'' ''alice'' ''hi''"]
    by (simp add: g stored_def)
qed

text \<open>
  C8. With the \<open>user_id\<close> parameter missing or empty the session ends at once, whatever
  the client would have sent: the Registry, the queues, the write log and the store are
  as they were, so no binding was installed and no message exchanged. Only the request
  counter, which is incremented on entry, has changed.
\<close>

theorem C8_missing_user_id:
  assumes "user_id = None \<or> user_id = Some []"
  shows "handleWebSocket E meth accepted user_id reads s
      = (Closing, s\<lparr>requestsTotal := (requestsTotal s)(meth := Suc (requestsTotal s meth))\<rparr>)
    \<and> connections (snd (handleWebSocket E meth accepted user_id reads s)) = connections s
    \<and> messageQueues (snd (handleWebSocket E meth accepted user_id reads s)) = messageQueues s
    \<and> wlog (snd (handleWebSocket E meth accepted user_id reads s)) = wlog s
    \<and> slog (snd (handleWebSocket E meth accepted user_id reads s)) = slog s"
  using assms
  by (auto simp: handleWebSocket_def open_session_def Let_def split: option.split)

theorem C8_missing_user_id_witness:
  "connections (snd (handleWebSocket env_ok ''GET'' (Some 9) (Some [])
       [Frame (frame_of ''bob'' ''alice'' ''hi''), ReadError] alice_queued)) = connections alice_queued
   \<and> messageQueues (snd (handleWebSocket env_ok ''GET'' (Some 9) (Some [])
       [Frame (frame_of ''bob'' ''alice'' ''hi''), ReadError] alice_queued)) = messageQueues alice_queued
   \<and> wlog (snd (handleWebSocket env_ok ''GET'' (Some 9) None
       [Frame (frame_of ''bob'' ''alice'' ''hi''), ReadError] alice_queued)) = wlog alice_queued
   \<and> fst (handleWebSocket env_ok ''GET'' (Some 9) None
       [Frame (frame_of ''bob'' ''alice'' ''hi''), ReadError] alice_queued) = Closing"
proof -
  have a: "Some ([]::string) = None \<or> Some ([]::string) = Some []" by simp
  have b: "(None::string option) = None \<or> (None::string option) = Some []" by simp
  show ?thesis
    using C8_missing_user_id [OF a, of env_ok "''GET''" "Some 9"
        "[Frame (frame_of ''bob'' ''alice'' ''hi''), ReadError]" alice_queued]
      C8_missing_user_id [OF b, of env_ok "''GET''" "Some 9"
        "[Frame (frame_of ''bob'' ''alice'' ''hi''), ReadError]" alice_queued]
    by simp
qed

section \<open>Decoding\<close>


lemma store_value_isl: "isl (store_value E fd v m) = isl (store_value E fd v m')"
  by (cases "(E, fd, v, m)" rule: store_value.cases) (simp_all split: option.split)

lemma store_value_other:
  "store_value E fd v m = Inr m' \<Longrightarrow> \<not> (v \<noteq> JNull) \<or> fd \<noteq> fd' \<Longrightarrow> field_is_zero fd' m' = field_is_zero fd' m"
  by (cases "(E, fd, v, m)" rule: store_value.cases; cases fd')
     (auto simp: field_is_zero_def split: option.splits)

lemma object_keeps:
  "object E kvs (m, sv) = Inr (m', sv') \<Longrightarrow>
   \<not> list_ex (\<lambda>(k, v). field_of_key k = Some fd \<and> v \<noteq> JNull) kvs \<Longrightarrow>
   field_is_zero fd m' = field_is_zero fd m"
proof (induction kvs arbitrary: m sv)
  case Nil
  then show ?case by simp
next
  case (Cons kv kvs)
  obtain k v where kv: "kv = (k, v)" by (cases kv)
  show ?case
  proof (cases "field_of_key k")
    case None
    with Cons kv show ?thesis by simp
  next
    case (Some fd')
    show ?thesis
    proof (cases "store_value E fd' v m")
      case (Inl e)
      with Cons kv Some show ?thesis by (cases e) auto
    next
      case (Inr m1)
      from Cons.prems(2) kv Some have "\<not> (v \<noteq> JNull) \<or> fd' \<noteq> fd" by auto
      with Inr have "field_is_zero fd m1 = field_is_zero fd m" by (rule store_value_other)
      moreover have "field_is_zero fd m' = field_is_zero fd m1"
        using Cons.prems kv Some Inr by (intro Cons.IH [of m1 sv]) auto
      ultimately show ?thesis by simp
    qed
  qed
qed

lemma field_is_zero_zero [simp]: "field_is_zero fd zero_Message"
  by (cases fd) (simp_all add: field_is_zero_def zero_Message_def)

lemma unmarshal_missing:
  assumes "unmarshal E f = Inr m" "\<not> supplies fd f"
  shows "field_is_zero fd m"
proof (cases f)
  case None
  with assms show ?thesis by (simp add: unmarshal_def)
next
  case (Some j)
  show ?thesis
  proof (cases j)
    case (JObject kvs)
    with assms Some obtain sv where o: "object E kvs (zero_Message, None) = Inr (m, sv)"
      by (auto simp: unmarshal_def split: sum.splits option.splits prod.splits)
    from assms(2) Some JObject
    have "\<not> list_ex (\<lambda>(k, v). field_of_key k = Some fd \<and> v \<noteq> JNull) kvs"
      by (simp add: supplies_def)
    with o have "field_is_zero fd m = field_is_zero fd zero_Message" by (rule object_keeps)
    then show ?thesis by simp
  qed (use assms Some in \<open>auto simp: unmarshal_def\<close>)
qed

lemma on_frame_decoded:
  "unmarshal E f = Inr m \<Longrightarrow> on_frame E f s = sendMessage E m (saveMessage E m s)"
  by (simp add: on_frame_def)

text \<open>
  C5 (amended). When a frame decodes and its payload supplies no timestamp (no member for
  the time field, or \<open>null\<close>), the message keeps the zero value of \<open>time.Time\<close>: no
  clock is read, and the message is saved and delivered with that zero timestamp.
\<close>

theorem C5_no_timestamp_left_zero:
  assumes "unmarshal E f = Inr m" and "\<not> supplies FTime f"
  shows "Time m = zero_time \<and> on_frame E f s = sendMessage E m (saveMessage E m s)"
  using unmarshal_missing [OF assms] on_frame_decoded [OF assms(1)]
  by (simp add: field_is_zero_def)

lemma object_filter: "object E (filter known kvs) acc = object E kvs acc"
proof (induction kvs arbitrary: acc)
  case Nil
  then show ?case by simp
next
  case (Cons kv kvs)
  obtain k v where kv: "kv = (k, v)" by (cases kv)
  obtain m sv where acc: "acc = (m, sv)" by (cases acc)
  show ?case
    using Cons.IH kv acc
    by (cases "field_of_key k")
       (auto simp: known_def split: sum.split decode_error.split)
qed

lemma object_fails:
  "(case object E kvs (m, sv) of Inl e \<Rightarrow> True | Inr (m', sv') \<Rightarrow> sv' \<noteq> None)
     = (sv \<noteq> None \<or> \<not> list_all (fits E) kvs)"
proof (induction kvs arbitrary: m sv)
  case Nil
  then show ?case by simp
next
  case (Cons kv kvs)
  obtain k v where kv: "kv = (k, v)" by (cases kv)
  show ?case
  proof (cases "field_of_key k")
    case None
    with Cons.IH kv show ?thesis by (simp add: fits_def)
  next
    case (Some fd)
    have i: "isl (store_value E fd v zero_Message) = isl (store_value E fd v m)"
      by (rule store_value_isl)
    show ?thesis
    proof (cases "store_value E fd v m")
      case (Inl e)
      with Cons.IH [of m "if sv = None then Some e else sv"] kv Some i show ?thesis
        by (cases e) (auto simp: fits_def)
    next
      case (Inr m1)
      with Cons.IH [of m1 sv] kv Some i show ?thesis by (simp add: fits_def)
    qed
  qed
qed

lemma unmarshal_isl: "isl (unmarshal E f) = (\<not> decodes E f)"
proof (cases f)
  case None
  then show ?thesis by (simp add: unmarshal_def decodes_def)
next
  case (Some j)
  show ?thesis
  proof (cases j)
    case (JObject kvs)
    with Some object_fails [of E kvs zero_Message None] show ?thesis
      by (auto simp: unmarshal_def decodes_def split: sum.splits option.splits prod.splits)
  qed (use Some in \<open>simp_all add: unmarshal_def decodes_def\<close>)
qed

text \<open>
  C6 (amended). Unknown members are ignored: a frame decodes to what it decodes to without
  them. A field that the payload does not supply keeps its zero value. Decoding fails
  exactly when the frame is not JSON, is a JSON value other than an object or \<open>null\<close>, or
  gives one of the four fields a value that does not fit it. A frame that decodes is saved
  and passed to sendMessage.
\<close>

theorem C6_unknown_and_missing_fields_accepted:
  "unmarshal E (Some (JObject kvs)) = unmarshal E (Some (JObject (filter known kvs)))
   \<and> isl (unmarshal E f) = (\<not> decodes E f)
   \<and> (\<forall>m fd. unmarshal E f = Inr m \<and> \<not> supplies fd f \<longrightarrow> field_is_zero fd m)
   \<and> (\<forall>m. unmarshal E f = Inr m \<longrightarrow> on_frame E f s = sendMessage E m (saveMessage E m s))"
  using unmarshal_missing [of E f] on_frame_decoded [of E f] unmarshal_isl [of E f]
  by (simp add: unmarshal_def object_filter)


text \<open>
  C5 (as the claim states it, refuted). The frame
  \<open>{"sender": "bob", "receiver": "alice", "content": "hi"}\<close> decodes, and the message that is
  stored and queued has the zero timestamp.
\<close>

theorem C5_timestamp_counterexample:
  "unmarshal env_ok (frame_of ''bob'' ''alice'' ''hi'') = Inr (msg ''bob'' ''alice'' ''hi'')
   \<and> Time (msg ''bob'' ''alice'' ''hi'') = zero_time
   \<and> map Time (queue_of (on_frame env_ok (frame_of ''bob'' ''alice'' ''hi'') init_state) ''alice'')
       = [zero_time]
   \<and> map Time (stored (on_frame env_ok (frame_of ''bob'' ''alice'' ''hi'') init_state))
       = [zero_time]"
  by (simp add: on_frame_def sendMessage_def saveMessage_def stored_def queue_of_def
      init_state_def env_ok_def msg_def)

theorem C5_no_timestamp_left_zero_witness:
  "unmarshal env_ok (frame_of ''bob'' ''alice'' ''hi'') = Inr (msg ''bob'' ''alice'' ''hi'')
   \<and> \<not> supplies FTime (frame_of ''bob'' ''alice'' ''hi'')
   \<and> Time (msg ''bob'' ''alice'' ''hi'') = zero_time
   \<and> on_frame env_ok (frame_of ''bob'' ''alice'' ''hi'') init_state
       = sendMessage env_ok (msg ''bob'' ''alice'' ''hi'')
           (saveMessage env_ok (msg ''bob'' ''alice'' ''hi'') init_state)"
proof -
  have h1: "unmarshal env_ok (frame_of ''bob'' ''alice'' ''hi'') = Inr (msg ''bob'' ''alice'' ''hi'')"
    by simp
  have h2: "\<not> supplies FTime (frame_of ''bob'' ''alice'' ''hi'')"
    by (simp add: supplies_def frame_of_def)
  show ?thesis
    using h1 h2 C5_no_timestamp_left_zero [OF h1 h2, of init_state] by simp
qed

lemma unmarshal_frame_extra: "unmarshal env_clock frame_extra = Inr stamped_msg"
  by (simp add: unmarshal_def frame_extra_def stamped_msg_def zero_Message_def env_clock_def
      field_of_key_def ascii_upper_def)

lemma unmarshal_frame_empty: "unmarshal E frame_empty = Inr zero_Message"
  by (simp add: unmarshal_def frame_empty_def)

text \<open>
  C6 (as the claim states it, refuted). A frame with an unknown member and the frame \<open>{}\<close>,
  which misses all four fields, both decode; each is stored and queued, the second one
  as the zero message under the empty user id.
\<close>

theorem C6_unknown_missing_counterexample:
  "\<not> isl (unmarshal env_clock frame_extra)
   \<and> stored (on_frame env_clock frame_extra init_state) = [stamped_msg]
   \<and> queue_of (on_frame env_clock frame_extra init_state) ''alice'' = [stamped_msg]
   \<and> \<not> isl (unmarshal env_clock frame_empty)
   \<and> stored (on_frame env_clock frame_empty init_state) = [zero_Message]
   \<and> queue_of (on_frame env_clock frame_empty init_state) [] = [zero_Message]"
  by (simp add: on_frame_def unmarshal_frame_extra unmarshal_frame_empty sendMessage_def
      saveMessage_def stored_def queue_of_def init_state_def)
     (simp add: stamped_msg_def zero_Message_def env_clock_def)

theorem C6_unknown_and_missing_fields_accepted_witness:
  "unmarshal env_clock frame_extra
     = unmarshal env_clock (Some (JObject [(''sender'', JString ''bob''),
         (''receiver'', JString ''alice''), (''content'', JString ''hi''),
         (''time'', JString ''0001-01-01T00:00:01Z'')]))
   \<and> decodes env_clock frame_empty
   \<and> \<not> supplies FReceiver frame_empty
   \<and> field_is_zero FReceiver zero_Message
   \<and> on_frame env_clock frame_empty init_state
       = sendMessage env_clock zero_Message (saveMessage env_clock zero_Message init_state)"
proof -
  have m: "field_of_key ''mood'' = None"
    by (simp add: field_of_key_def ascii_upper_def)
  have k: "filter known [(''sender'', JString ''bob''), (''receiver'', JString ''alice''),
       (''content'', JString ''hi''), (''time'', JString ''0001-01-01T00:00:01Z''),
       (''mood'', JBool True)]
     = [(''sender'', JString ''bob''), (''receiver'', JString ''alice''),
       (''content'', JString ''hi''), (''time'', JString ''0001-01-01T00:00:01Z'')]"
    by (simp add: known_def m)
  have n: "\<not> supplies FReceiver frame_empty" by (simp add: supplies_def frame_empty_def)
  have u: "unmarshal env_clock frame_empty = Inr zero_Message" by (rule unmarshal_frame_empty)
  note T = C6_unknown_and_missing_fields_accepted [of env_clock
        "[(''sender'', JString ''bob''), (''receiver'', JString ''alice''),
          (''content'', JString ''hi''), (''time'', JString ''0001-01-01T00:00:01Z''),
          (''mood'', JBool True)]" frame_empty init_state]
  from T have a: "unmarshal env_clock frame_extra
     = unmarshal env_clock (Some (JObject [(''sender'', JString ''bob''),
         (''receiver'', JString ''alice''), (''content'', JString ''hi''),
         (''time'', JString ''0001-01-01T00:00:01Z'')]))"
    unfolding k frame_extra_def by (rule conjunct1)
  from T have b: "isl (unmarshal env_clock frame_empty) = (\<not> decodes env_clock frame_empty)"
    by (elim conjE)
  from T have c: "\<forall>m fd. unmarshal env_clock frame_empty = Inr m \<and> \<not> supplies fd frame_empty
      \<longrightarrow> field_is_zero fd m"
    by (elim conjE)
  from T have d: "\<forall>m. unmarshal env_clock frame_empty = Inr m \<longrightarrow>
      on_frame env_clock frame_empty init_state
        = sendMessage env_clock m (saveMessage env_clock m init_state)"
    by (elim conjE)
  from b u have b': "decodes env_clock frame_empty" by simp
  from c u n have c': "field_is_zero FReceiver zero_Message" by blast
  from d u have d': "on_frame env_clock frame_empty init_state
       = sendMessage env_clock zero_Message (saveMessage env_clock zero_Message init_state)"
    by blast
  from a b' n c' d' show ?thesis by (intro conjI)
qed

section \<open>Messages to the empty user id\<close>


lemma sendMessage_never: "never_to_empty s \<Longrightarrow> never_to_empty (sendMessage E m s)"
  by (auto simp: never_to_empty_def sendMessage_def split: option.split)

lemma fold_sendMessage_never:
  "never_to_empty s \<Longrightarrow> never_to_empty (fold (sendMessage E) q s)"
  by (induction q arbitrary: s) (simp_all add: sendMessage_never)

lemma connect_never: "u \<noteq> [] \<Longrightarrow> never_to_empty s \<Longrightarrow> never_to_empty (connect E u c s)"
proof -
  assume u: "u \<noteq> []" and n: "never_to_empty s"
  let ?s1 = "s\<lparr>connections := (connections s)(u \<mapsto> c)\<rparr>"
  from u n have "never_to_empty ?s1" by (simp add: never_to_empty_def)
  then have "never_to_empty (fold (sendMessage E) (queue_of ?s1 u) ?s1)"
    by (rule fold_sendMessage_never)
  then show ?thesis by (simp add: connect_def Let_def never_to_empty_def)
qed

lemma step_never: "never_to_empty s \<Longrightarrow> never_to_empty (step E ev s)"
proof (cases ev)
  case (Open meth acc uid)
  assume n: "never_to_empty s"
  then have r: "never_to_empty (s\<lparr>requestsTotal := r\<rparr>)" for r
    by (simp add: never_to_empty_def)
  show ?thesis using Open r
    by (cases acc; cases uid) (auto simp: open_session_def Let_def connect_never)
next
  case (Inbound f)
  assume n: "never_to_empty s"
  then have "never_to_empty (saveMessage E m s)" for m
    by (simp add: never_to_empty_def)
  with n Inbound show ?thesis
    by (simp add: on_frame_def sendMessage_never split: sum.split)
next
  case (Close v)
  assume "never_to_empty s"
  with Close show ?thesis by (simp add: on_close_def never_to_empty_def)
qed

lemma run_never: "never_to_empty s \<Longrightarrow> never_to_empty (run E evs s)"
  by (induction evs arbitrary: s) (simp_all add: step_never)

lemma init_never: "never_to_empty init_state"
  by (simp add: never_to_empty_def init_state_def)

lemma sendMessage_prefix: "prefix (queue_of s v) (queue_of (sendMessage E m s) v)"
  by (simp add: sendMessage_queue_of)

lemma fold_sendMessage_prefix: "prefix (queue_of s v) (queue_of (fold (sendMessage E) q s) v)"
proof (induction q arbitrary: s)
  case Nil
  then show ?case by simp
next
  case (Cons m q)
  have "prefix (queue_of s v) (queue_of (sendMessage E m s) v)" by (rule sendMessage_prefix)
  also have "prefix \<dots> (queue_of (fold (sendMessage E) q (sendMessage E m s)) v)"
    by (rule Cons.IH)
  finally show ?case by simp
qed

lemma connect_prefix: "v \<noteq> u \<Longrightarrow> prefix (queue_of s v) (queue_of (connect E u c s) v)"
proof -
  assume v: "v \<noteq> u"
  let ?s1 = "s\<lparr>connections := (connections s)(u \<mapsto> c)\<rparr>"
  have "prefix (queue_of ?s1 v) (queue_of (fold (sendMessage E) (queue_of ?s1 u) ?s1) v)"
    by (rule fold_sendMessage_prefix)
  with v show ?thesis by (simp add: connect_def Let_def)
qed

lemma step_prefix: "prefix (queue_of s []) (queue_of (step E ev s) [])"
proof (cases ev)
  case (Open meth acc uid)
  have "prefix (queue_of (s\<lparr>requestsTotal := r\<rparr>) [])
      (queue_of (connect E u c (s\<lparr>requestsTotal := r\<rparr>)) [])" if "u \<noteq> []" for u c r
    using that by (intro connect_prefix) simp
  with Open show ?thesis
    by (cases acc; cases uid) (auto simp: open_session_def Let_def)
next
  case (Inbound f)
  have "prefix (queue_of (saveMessage E m s) []) (queue_of (sendMessage E m (saveMessage E m s)) [])"
    for m by (rule sendMessage_prefix)
  with Inbound show ?thesis by (simp add: on_frame_def split: sum.split)
next
  case (Close v)
  then show ?thesis by (simp add: on_close_def)
qed

lemma run_prefix: "prefix (queue_of s []) (queue_of (run E evs s) [])"
proof (induction evs arbitrary: s)
  case Nil
  then show ?case by simp
next
  case (Cons ev evs)
  have "prefix (queue_of s []) (queue_of (step E ev s) [])" by (rule step_prefix)
  also have "prefix \<dots> (queue_of (run E evs (step E ev s)) [])" by (rule Cons.IH)
  finally show ?case by simp
qed

text \<open>
  C10. In every state the server reaches from its start, the empty user id has no binding.
  So sendMessage puts a message whose receiver is the empty string at the tail of the
  queue kept under the empty key and writes nothing. A connection with an empty user id
  is closed before line 92, and whatever happens afterwards, the queue under the empty
  key only grows (the message stays in it), the empty user id stays unbound, and no
  write call ever carries a message addressed to the empty user id.
\<close>

theorem C10_empty_receiver_accumulates:
  assumes "Receiver m = []"
  shows "connections (run E evs init_state) [] = None
    \<and> queue_of (sendMessage E m (run E evs init_state)) []
        = queue_of (run E evs init_state) [] @ [m]
    \<and> wlog (sendMessage E m (run E evs init_state)) = wlog (run E evs init_state)
    \<and> fst (open_session E meth acc (Some []) s) = Closing
    \<and> prefix (queue_of (sendMessage E m (run E evs init_state)) [])
        (queue_of (run E evs' (sendMessage E m (run E evs init_state))) [])
    \<and> connections (run E evs' (sendMessage E m (run E evs init_state))) [] = None
    \<and> list_all (\<lambda>(c, m', ok). Receiver m' \<noteq> [])
        (wlog (run E evs' (sendMessage E m (run E evs init_state))))"
proof -
  let ?s = "run E evs init_state"
  have n: "never_to_empty ?s" using init_never by (rule run_never)
  then have off: "connections ?s [] = None" by (simp add: never_to_empty_def)
  from n have "never_to_empty (sendMessage E m ?s)" by (rule sendMessage_never)
  then have "never_to_empty (run E evs' (sendMessage E m ?s))" by (rule run_never)
  then have fin: "connections (run E evs' (sendMessage E m ?s)) [] = None"
      "list_all (\<lambda>(c, m', ok). Receiver m' \<noteq> []) (wlog (run E evs' (sendMessage E m ?s)))"
    by (simp_all add: never_to_empty_def)
  have q: "queue_of (sendMessage E m ?s) [] = queue_of ?s [] @ [m]"
    using assms off by (simp add: sendMessage_queue_of)
  have w: "wlog (sendMessage E m ?s) = wlog ?s"
    using assms off by (simp add: sendMessage_def)
  have c: "fst (open_session E meth acc (Some []) s) = Closing"
    by (simp add: open_session_def Let_def split: option.split)
  have p: "prefix (queue_of (sendMessage E m ?s) [])
        (queue_of (run E evs' (sendMessage E m ?s)) [])"
    by (rule run_prefix)
  from off q w c p fin show ?thesis by (intro conjI)
qed



lemma queue_empty_offline_run: "queue_of (run env_ok offline_run init_state) [] = []"
  by (simp add: offline_run_def open_session_def Let_def connect_def on_frame_def
      sendMessage_def saveMessage_def queue_of_def init_state_def msg_def)

theorem C10_empty_receiver_accumulates_witness:
  "Receiver zero_Message = []
   \<and> connections (run env_ok offline_run init_state) [] = None
   \<and> queue_of (sendMessage env_ok zero_Message (run env_ok offline_run init_state)) []
       = [zero_Message]
   \<and> fst (open_session env_ok ''GET'' (Some 5) (Some []) init_state) = Closing
   \<and> prefix [zero_Message]
       (queue_of (run env_ok after_null
          (sendMessage env_ok zero_Message (run env_ok offline_run init_state))) [])
   \<and> list_all (\<lambda>(c, m', ok). Receiver m' \<noteq> [])
       (wlog (run env_ok after_null
          (sendMessage env_ok zero_Message (run env_ok offline_run init_state))))"
proof -
  have h: "Receiver zero_Message = []" by (simp add: zero_Message_def)
  show ?thesis
    using h C10_empty_receiver_accumulates [OF h, of env_ok offline_run "''GET''" "Some 5"
        init_state after_null]
    by (auto simp: queue_empty_offline_run)
qed

end
